theory Spec2Isabelle
  imports Main "HOL-Library.Sublist"
begin

section \<open>JavaScript strings\<close>

text \<open>
  Strings of the program are modelled as \<open>string\<close> (lists of 8-bit characters), which is
  exact for ASCII text. The operations below are the ones \<open>src/utils/docs.tsx\<close> uses.
\<close>

text \<open>
  \<open>subject.replace(pattern, replacement)\<close> with a \<^emph>\<open>string\<close> pattern: only the first
  (leftmost) occurrence is replaced. The replacements of the source (\<open>'-'\<close> and \<open>''\<close>) hold
  no \<open>$\<close>, so they are inserted literally.
\<close>

fun replace_str :: "string \<Rightarrow> string \<Rightarrow> string \<Rightarrow> string" where
  "replace_str pat rep [] = (if pat = [] then rep else [])"
| "replace_str pat rep (c # cs) =
     (if prefix pat (c # cs) then rep @ drop (length pat) (c # cs)
      else c # replace_str pat rep cs)"

text \<open>\<open>s.split(sep)\<close> for a one-character separator: never the empty array.\<close>

fun split_on :: "char \<Rightarrow> string \<Rightarrow> string list" where
  "split_on sep [] = [[]]"
| "split_on sep (c # cs) =
     (if c = sep then [] # split_on sep cs
      else (case split_on sep cs of
              [] \<Rightarrow> [[c]]
            | x # xs \<Rightarrow> (c # x) # xs))"

text \<open>\<open>segments.join(sep)\<close>.\<close>

fun join :: "string \<Rightarrow> string list \<Rightarrow> string" where
  "join sep [] = []"
| "join sep [x] = x"
| "join sep (x # y # ys) = x @ sep @ join sep (y # ys)"

text \<open>\<open>s.includes(pat)\<close>.\<close>

fun contains :: "string \<Rightarrow> string \<Rightarrow> bool" where
  "contains pat [] = (pat = [])"
| "contains pat (c # cs) = (prefix pat (c # cs) \<or> contains pat cs)"

section \<open>Library configuration and \<open>getParams\<close>\<close>

text \<open>
  The external table \<open>data/libraries\<close> maps a library id to its configuration, of which
  only the optional \<open>docs\<close> entry \<open>{ dir?, repo, branch? }\<close> is read. An absent optional
  field is \<open>None\<close>. The table is an association list in key order (the order of
  \<open>Object.keys\<close>), with distinct keys.
\<close>

record docs_config =
  dir :: "string option"
  repo :: string
  branch :: "string option"

record lib_config =
  docs :: "docs_config option"

type_synonym libraries = "(string \<times> lib_config) list"

record params =
  p_repo :: string
  p_branch :: string
  gitDir :: string
  entry :: string

text \<open>
  \<^verbatim>\<open>const getParams = (lib) => {
    const config = libs[lib]
    if (!config?.docs) return
    const { dir = '', repo, branch = 'main' } = config.docs
    const gitDir = `/${repo.replace('/', '-')}-${branch}`
    const entry = dir ? `${gitDir}/${dir}` : gitDir
    return { repo, branch, gitDir, entry }
  }\<close>
  A destructuring default applies to a missing field only; \<open>dir ? \<dots>\<close> tests for the
  non-empty string.
\<close>

definition getParams :: "libraries \<Rightarrow> string \<Rightarrow> params option" where
  "getParams libs lib =
     (case map_of libs lib of
        None \<Rightarrow> None
      | Some config \<Rightarrow>
          (case docs config of
             None \<Rightarrow> None
           | Some d \<Rightarrow>
               let dir' = (case dir d of None \<Rightarrow> [] | Some x \<Rightarrow> x);
                   branch' = (case branch d of None \<Rightarrow> ''main'' | Some b \<Rightarrow> b);
                   gitDir' = ''/'' @ replace_str ''/'' ''-'' (repo d) @ ''-'' @ branch';
                   entry' = (if dir' \<noteq> [] then gitDir' @ ''/'' @ dir' else gitDir')
               in Some \<lparr>p_repo = repo d, p_branch = branch', gitDir = gitDir', entry = entry'\<rparr>))"

section \<open>The virtual filesystem and \<open>crawl\<close>\<close>

text \<open>
  The in-memory filesystem (\<open>memfs\<close>) is a finite tree: a file holds its bytes, a
  directory lists its entries by name. \<open>lstatSync(p).isDirectory()\<close> tells the two apart
  and \<open>readdirSync\<close> gives the names of a directory. Symbolic links are not modelled.
\<close>

datatype node = File string | Dir "(string \<times> node) list"

text \<open>
  \<^verbatim>\<open>const crawl = async (dir, filter?, files = []) => {
    if (fs.lstatSync(dir).isDirectory()) {
      const filenames = fs.readdirSync(dir)
      await Promise.all(filenames.map(async (filename) => crawl(`${dir}/${filename}`, filter, files)))
    } else if (!filter || filter.test(dir)) {
      files.push(dir)
    }
    return files
  }\<close>
  The body of \<open>crawl\<close> has no suspension point before its recursive calls and its
  \<open>push\<close>, so the calls made by \<open>filenames.map\<close> run to their ends one after the other:
  the shared accumulator \<open>files\<close> is filled depth-first in the order of \<open>readdirSync\<close>.
  \<open>crawl d flt n files\<close> is the call \<open>crawl(d, flt, files)\<close> where \<open>n\<close> is what the
  filesystem holds at the path \<open>d\<close>. The filter \<open>flt\<close> is the predicate \<open>filter.test\<close> of
  a regular expression without the \<open>g\<close> and \<open>y\<close> flags (\<open>crawl\<close> is private to the
  module, and its only caller passes \<open>MARKDOWN_REGEX\<close>), \<open>None\<close> when no filter is given.
\<close>

fun crawl :: "string \<Rightarrow> (string \<Rightarrow> bool) option \<Rightarrow> node \<Rightarrow> string list \<Rightarrow> string list"
  and crawl_each ::
    "string \<Rightarrow> (string \<Rightarrow> bool) option \<Rightarrow> (string \<times> node) list \<Rightarrow> string list \<Rightarrow> string list"
where
  "crawl d flt (Dir entries) files = crawl_each d flt entries files"
| "crawl d flt (File bytes) files =
     (if (case flt of None \<Rightarrow> True | Some accepts \<Rightarrow> accepts d) then files @ [d]
      else files)"
| "crawl_each d flt [] files = files"
| "crawl_each d flt ((filename, child) # rest) files =
     crawl_each d flt rest (crawl (d @ ''/'' @ filename) flt child files)"

text \<open>
  What the crawl is measured against: \<open>file_at p n q\<close> says that \<open>q\<close> is the path of a
  file in the tree \<open>n\<close> mounted at the path \<open>p\<close>; \<open>passes flt q\<close> that \<open>q\<close> matches the
  filter. A well-formed tree has, in every directory, distinct entry names without a
  separator in them (what a filesystem guarantees).
\<close>

inductive file_at :: "string \<Rightarrow> node \<Rightarrow> string \<Rightarrow> bool" where
  here: "file_at p (File bytes) p"
| below: "(name, child) \<in> set entries \<Longrightarrow> file_at (p @ ''/'' @ name) child q
          \<Longrightarrow> file_at p (Dir entries) q"

definition passes :: "(string \<Rightarrow> bool) option \<Rightarrow> string \<Rightarrow> bool" where
  "passes flt p = (case flt of None \<Rightarrow> True | Some accepts \<Rightarrow> accepts p)"

fun wf_node :: "node \<Rightarrow> bool" where
  "wf_node (File bytes) = True"
| "wf_node (Dir entries) =
     (distinct (map fst entries)
      \<and> (\<forall>e \<in> set entries. CHR ''/'' \<notin> set (fst e) \<and> wf_node (snd e)))"

text \<open>
  Path resolution of \<open>memfs\<close>: a path is cut at its separators, empty and \<open>.\<close> segments
  are dropped, \<open>..\<close> steps back, and the remaining names are followed from the root.
\<close>

fun normalize :: "string list \<Rightarrow> string list \<Rightarrow> string list" where
  "normalize acc [] = rev acc"
| "normalize acc (s # ss) =
     (if s = [] \<or> s = ''.'' then normalize acc ss
      else if s = ''..'' then normalize (tl acc) ss
      else normalize (s # acc) ss)"

fun lookup :: "node \<Rightarrow> string list \<Rightarrow> node option" where
  "lookup n [] = Some n"
| "lookup (File bytes) (s # ss) = None"
| "lookup (Dir entries) (s # ss) =
     (case map_of entries s of None \<Rightarrow> None | Some child \<Rightarrow> lookup child ss)"

definition lstat :: "node \<Rightarrow> string \<Rightarrow> node option" where
  "lstat root p = lookup root (normalize [] (split_on (CHR ''/'') p))"

datatype error =
    AcquisitionFailure string
  | ENOENT string
  | EISDIR string
  | YAMLException
  | RangeError

definition readFileSync :: "node \<Rightarrow> string \<Rightarrow> error + string" where
  "readFileSync root p =
     (case lstat root p of
        None \<Rightarrow> Inl (ENOENT p)
      | Some (Dir entries) \<Rightarrow> Inl (EISDIR p)
      | Some (File bytes) \<Rightarrow> Inr bytes)"

section \<open>Regular expressions\<close>

text \<open>
  The three regular expressions of the module are written as data and run by a
  backtracking matcher that follows ECMAScript: \<open>matches n r s\<close> lists, in the order the
  backtracking tries them, the remainders of \<open>s\<close> after a match of \<open>r\<close> at the head of
  \<open>s\<close>, where \<open>n\<close> is the length of the whole subject (so that \<open>^\<close> can tell the start).
  A lazy star tries no iteration first, and an iteration that consumes nothing is not
  repeated. Without the \<open>m\<close> flag \<open>^\<close> and \<open>$\<close> are the ends of the subject.
\<close>

datatype regex =
    Lit string
  | OneOf "char list"
  | NoneOf "char list"
  | Bol
  | Eol
  | Seq regex regex
  | Alt regex regex
  | Opt regex
  | LazyStar regex
  | Ahead regex
  | NotAhead regex

fun lazy_iter :: "nat \<Rightarrow> (string \<Rightarrow> string list) \<Rightarrow> string \<Rightarrow> string list" where
  "lazy_iter 0 step s = [s]"
| "lazy_iter (Suc k) step s =
     s # concat (map (lazy_iter k step) (filter (\<lambda>t. length t < length s) (step s)))"

fun matches :: "nat \<Rightarrow> regex \<Rightarrow> string \<Rightarrow> string list" where
  "matches n (Lit l) s = (if prefix l s then [drop (length l) s] else [])"
| "matches n (OneOf cs) s =
     (case s of [] \<Rightarrow> [] | c # t \<Rightarrow> if c \<in> set cs then [t] else [])"
| "matches n (NoneOf cs) s =
     (case s of [] \<Rightarrow> [] | c # t \<Rightarrow> if c \<in> set cs then [] else [t])"
| "matches n Bol s = (if length s = n then [s] else [])"
| "matches n Eol s = (if s = [] then [s] else [])"
| "matches n (Seq a b) s = concat (map (\<lambda>t. matches n b t) (matches n a s))"
| "matches n (Alt a b) s = matches n a s @ matches n b s"
| "matches n (Opt a) s = matches n a s @ [s]"
| "matches n (LazyStar a) s = lazy_iter (length s) (\<lambda>t. matches n a t) s"
| "matches n (Ahead a) s = (if matches n a s = [] then [] else [s])"
| "matches n (NotAhead a) s = (if matches n a s = [] then [s] else [])"

text \<open>
  \<open>exec_from n r s\<close> looks for the leftmost match at or after the position where \<open>s\<close>
  starts and returns the subject from the start of the match and from its end.
\<close>

fun exec_from :: "nat \<Rightarrow> regex \<Rightarrow> string \<Rightarrow> (string \<times> string) option" where
  "exec_from n r s =
     (case matches n r s of
        t # _ \<Rightarrow> Some (s, t)
      | [] \<Rightarrow> (case s of [] \<Rightarrow> None | c # cs \<Rightarrow> exec_from n r cs))"

text \<open>\<open>r.test(s)\<close> for a regular expression without the \<open>g\<close> flag.\<close>

definition test :: "regex \<Rightarrow> string \<Rightarrow> bool" where
  "test r s = (exec_from (length s) r s \<noteq> None)"

text \<open>\<open>s.replace(r, '')\<close> for \<open>r\<close> without the \<open>g\<close> flag: the first match is removed.\<close>

definition replace_first :: "regex \<Rightarrow> string \<Rightarrow> string" where
  "replace_first r s =
     (case exec_from (length s) r s of
        None \<Rightarrow> s
      | Some (m, t) \<Rightarrow> take (length s - length m) s @ t)"

text \<open>
  \<open>s.replace(r, '')\<close> for \<open>r\<close> with the \<open>g\<close> flag: every match is removed, the search
  going on where the last match ended (one character further after an empty match).
\<close>

function replace_global_from :: "nat \<Rightarrow> regex \<Rightarrow> string \<Rightarrow> string" where
  "replace_global_from n r s =
     (case matches n r s of
        [] \<Rightarrow> (case s of [] \<Rightarrow> [] | c # cs \<Rightarrow> c # replace_global_from n r cs)
      | t # _ \<Rightarrow>
          if length t < length s then replace_global_from n r t
          else (case s of [] \<Rightarrow> [] | c # cs \<Rightarrow> c # replace_global_from n r cs))"
  by pat_completeness auto
termination
  by (relation "measure (\<lambda>(n, r, s). length s)") auto

definition replace_global :: "regex \<Rightarrow> string \<Rightarrow> string" where
  "replace_global r s = replace_global_from (length s) r s"

definition newline :: char where
  "newline = CHR 0x0A"

text \<open>The ASCII members of the class \<open>\s\<close>, and the ASCII line terminators that \<open>.\<close> excludes.\<close>

definition whitespace :: "char list" where
  "whitespace = [CHR '' '', CHR 0x09, CHR 0x0A, CHR 0x0B, CHR 0x0C, CHR 0x0D]"

definition line_terminators :: "char list" where
  "line_terminators = [CHR 0x0A, CHR 0x0D]"

text \<open>\<^verbatim>\<open>MARKDOWN_REGEX = /\.mdx?$/\<close>\<close>

definition MARKDOWN_REGEX :: regex where
  "MARKDOWN_REGEX = Seq (Lit ''.md'') (Seq (Opt (Lit ''x'')) Eol)"

text \<open>\<^verbatim>\<open>FRONTMATTER_REGEX = /^<!--[\s\n]*?(?=---)|(?!---)[\s\n]*?-->/g\<close>\<close>

definition FRONTMATTER_REGEX :: regex where
  "FRONTMATTER_REGEX =
     Alt (Seq Bol (Seq (Lit ''<!--'') (Seq (LazyStar (OneOf whitespace)) (Ahead (Lit ''---'')))))
         (Seq (NotAhead (Lit ''---'')) (Seq (LazyStar (OneOf whitespace)) (Lit ''-->'')))"

text \<open>\<^verbatim>\<open>COMMENT_REGEX = /<!--(.|\n)*?-->|<!--[^\n]*?\n/g\<close>\<close>

definition COMMENT_REGEX :: regex where
  "COMMENT_REGEX =
     Alt (Seq (Lit ''<!--'')
            (Seq (LazyStar (Alt (NoneOf line_terminators) (Lit [newline]))) (Lit ''-->'')))
         (Seq (Lit ''<!--'') (Seq (LazyStar (NoneOf [newline])) (Lit [newline])))"

text \<open>
  The two passes over the body:
  \<^verbatim>\<open>compiled.content.replace(FRONTMATTER_REGEX, '').replace(COMMENT_REGEX, '')\<close>
\<close>

definition sanitize :: "string \<Rightarrow> string" where
  "sanitize body = replace_global COMMENT_REGEX (replace_global FRONTMATTER_REGEX body)"

section \<open>Front matter\<close>

text \<open>
  \<open>String.prototype.trim\<close>, on the ASCII white space.
\<close>

definition trim :: "string \<Rightarrow> string" where
  "trim s = rev (dropWhile (\<lambda>c. c \<in> set whitespace) (rev (dropWhile (\<lambda>c. c \<in> set whitespace) s)))"

text \<open>\<open>cut_at pat s\<close> cuts \<open>s\<close> around the first occurrence of \<open>pat\<close> (\<open>indexOf\<close>).\<close>

fun cut_at :: "string \<Rightarrow> string \<Rightarrow> (string \<times> string) option" where
  "cut_at pat [] = (if pat = [] then Some ([], []) else None)"
| "cut_at pat (c # cs) =
     (if prefix pat (c # cs) then Some ([], drop (length pat) (c # cs))
      else (case cut_at pat cs of
              None \<Rightarrow> None
            | Some (before, after) \<Rightarrow> Some (c # before, after)))"

type_synonym front_matter = "(string \<times> string) list"

text \<open>
  Modelled from the spec: the front-matter parser \<open>matter\<close> is the external package
  \<open>gray-matter\<close>, whose code is not part of the repository. The spec (4.4, step 3) asks for
  ``a front-matter block delimited by \<open>---\<close> lines at the start of the text (YAML-like
  key/value block)'', separated ``from the remaining body text'', and ``if no front-matter
  block is present, frontMatter is an empty mapping''. The model follows the package where
  the spec is silent: the text opens a block when it starts with \<open>---\<close> not followed by a
  fourth \<open>-\<close>; the block ends before the first later \<open>---\<close> at the start of a line (or at
  the end of the text); the body starts after that delimiter and one line break. The block
  is read as lines \<open>key: value\<close>, blank lines and \<open>#\<close> comments skipped, keys and values
  kept as trimmed strings, in the order of the lines; any other line is a parse failure.
  Language tags after the opening delimiter, a leading byte-order mark and the package's
  result cache are not modelled.
\<close>

definition parse_line :: "string \<Rightarrow> (string \<times> string) option option" where
  "parse_line l =
     (let t = trim l in
      if t = [] \<or> hd t = CHR ''#'' then Some None
      else (case cut_at '':'' t of
              None \<Rightarrow> None
            | Some (k, v) \<Rightarrow> Some (Some (trim k, trim v))))"

fun parse_lines :: "string list \<Rightarrow> front_matter option" where
  "parse_lines [] = Some []"
| "parse_lines (l # ls) =
     (case parse_line l of
        None \<Rightarrow> None
      | Some kv \<Rightarrow>
          (case parse_lines ls of
             None \<Rightarrow> None
           | Some rest \<Rightarrow> Some ((case kv of None \<Rightarrow> [] | Some p \<Rightarrow> [p]) @ rest)))"

text \<open>
  Modelled from the spec: whether the text starts with a front-matter block (the test that
  \<open>gray-matter\<close> makes on the opening delimiter).
\<close>

definition has_front_matter :: "string \<Rightarrow> bool" where
  "has_front_matter text = (prefix ''---'' text \<and> \<not> prefix ''----'' text)"

text \<open>
  Modelled from the spec: \<open>matter(text)\<close> of \<open>gray-matter\<close>, giving \<open>data\<close> and \<open>content\<close>,
  or the exception of the parser of the block.
\<close>

definition matter :: "string \<Rightarrow> error + front_matter \<times> string" where
  "matter text =
     (if \<not> has_front_matter text then Inr ([], text)
      else
        let str = drop 3 text;
            (block, rest) = (case cut_at (newline # ''---'') str of
                               None \<Rightarrow> (str, [])
                             | Some (before, after) \<Rightarrow>
                                 (before,
                                  let r = (if prefix [CHR 0x0D] after then tl after else after)
                                  in if prefix [newline] r then tl r else r))
        in (case parse_lines (split_on newline block) of
              None \<Rightarrow> Inl YAMLException
            | Some d \<Rightarrow> Inr (d, rest)))"

section \<open>Documents and \<open>getDocs\<close>\<close>

record document =
  path :: string
  slug :: "string list"
  data :: front_matter
  content :: string

text \<open>
  A JavaScript \<open>Map\<close> with string keys, in insertion order. \<open>docs.set(k, v)\<close> overwrites the
  value of a key that is present, where it stands, and appends a new key at the end.
\<close>

type_synonym docmap = "(string \<times> document) list"

fun map_set :: "string \<Rightarrow> document \<Rightarrow> docmap \<Rightarrow> docmap" where
  "map_set k v [] = [(k, v)]"
| "map_set k v ((k', v') # m) = (if k' = k then (k, v) # m else (k', v') # map_set k v m)"

text \<open>
  The body of the \<open>files.forEach\<close> callback, for one file: the key and the document that
  \<open>docs.set\<close> receives, or the exception of \<open>readFileSync\<close> or of \<open>matter\<close>.
  \<^verbatim>\<open>const path = file.replace(`${params.entry}/`, '')
  const slug = [lib, ...path.replace(MARKDOWN_REGEX, '').split('/')]
  const { data, ...compiled } = matter(fs.readFileSync(file))
  const content = compiled.content.replace(FRONTMATTER_REGEX, '').replace(COMMENT_REGEX, '')
  docs.set(slug.join('/'), { path, slug, data, content })\<close>
\<close>

definition file_path :: "string \<Rightarrow> string \<Rightarrow> string" where
  "file_path entry' file = replace_str (entry' @ ''/'') [] file"

definition file_slug :: "string \<Rightarrow> string \<Rightarrow> string \<Rightarrow> string list" where
  "file_slug lib entry' file =
     lib # split_on (CHR ''/'') (replace_first MARKDOWN_REGEX (file_path entry' file))"

definition file_key :: "string \<Rightarrow> string \<Rightarrow> string \<Rightarrow> string" where
  "file_key lib entry' file = join ''/'' (file_slug lib entry' file)"

definition parse_file :: "node \<Rightarrow> string \<Rightarrow> string \<Rightarrow> string \<Rightarrow> error + string \<times> document" where
  "parse_file root lib entry' file =
     (case readFileSync root file of
        Inl e \<Rightarrow> Inl e
      | Inr bytes \<Rightarrow>
          (case matter bytes of
             Inl e \<Rightarrow> Inl e
           | Inr (data', body) \<Rightarrow>
               Inr (join ''/'' (file_slug lib entry' file),
                    \<lparr>path = file_path entry' file, slug = file_slug lib entry' file,
                     data = data', content = sanitize body\<rparr>)))"

text \<open>\<open>files.forEach\<close>: an exception in the callback ends the loop and \<open>getDocs\<close>.\<close>

fun forEach_file :: "node \<Rightarrow> string \<Rightarrow> string \<Rightarrow> string list \<Rightarrow> docmap \<Rightarrow> error + docmap" where
  "forEach_file root lib entry' [] m = Inr m"
| "forEach_file root lib entry' (file # files) m =
     (case parse_file root lib entry' file of
        Inl e \<Rightarrow> Inl e
      | Inr (k, doc) \<Rightarrow> forEach_file root lib entry' files (map_set k doc m))"

text \<open>
  The state of the process: the virtual filesystem and the log of the calls of
  \<open>git.clone\<close>. A call carries \<open>dir\<close>, \<open>url\<close> and \<open>ref\<close>; \<open>singleBranch: true\<close> and
  \<open>depth: 1\<close> are fixed. The package \<open>isomorphic-git\<close> and the network are a parameter
  \<open>git\<close> of the model: given the request and the state in which it is made, it fails or
  gives the filesystem after the clone.
\<close>

record clone_request =
  c_dir :: string
  url :: string
  ref :: string

record world =
  fs :: node
  clones :: "clone_request list"

type_synonym git_clone = "clone_request \<Rightarrow> world \<Rightarrow> error + node"

text \<open>
  \<open>getDocs(lib)\<close> for a library id that is given (lines 66 to 102). The result is
  \<open>undefined\<close> (\<open>None\<close>) or the \<open>Map\<close>, or the rejection.
\<close>

definition request :: "params \<Rightarrow> clone_request" where
  "request p = \<lparr>c_dir = gitDir p, url = ''https://github.com/'' @ p_repo p, ref = p_branch p\<rparr>"

definition getDocs_lib ::
  "git_clone \<Rightarrow> libraries \<Rightarrow> string \<Rightarrow> world \<Rightarrow> (error + docmap option) \<times> world" where
  "getDocs_lib git libs lib w =
     (case getParams libs lib of
        None \<Rightarrow> (Inr None, w)
      | Some p \<Rightarrow>
          let w1 = w\<lparr>clones := clones w @ [request p]\<rparr> in
          (case git (request p) w1 of
             Inl e \<Rightarrow> (Inl e, w1)
           | Inr root \<Rightarrow>
               let w2 = w1\<lparr>fs := root\<rparr> in
               (case lstat root (entry p) of
                  None \<Rightarrow> (Inl (ENOENT (entry p)), w2)
                | Some n \<Rightarrow>
                    (case forEach_file root lib (entry p)
                            (crawl (entry p) (Some (test MARKDOWN_REGEX)) n []) [] of
                       Inl e \<Rightarrow> (Inl e, w2)
                     | Inr m \<Rightarrow> (Inr (Some m), w2)))))"

text \<open>
  \<open>getDocs()\<close> without a library (lines 61 to 64):
  \<^verbatim>\<open>const docs = await Promise.all(Object.keys(libs).map(getDocs))
  return docs.filter(Boolean).flatMap((c) => Array.from(c.values()))\<close>
  The calls for the keys are modelled one after the other in key order, each running to
  its end in the state the one before left. A key that is the empty string would enter
  this branch again without end; the model closes that call with \<open>RangeError\<close>.
  \<open>Promise.all\<close> waits for no one once a call is rejected: it is rejected with the error
  of that call (of the first such call in key order, in the model), while the other calls
  still run.
\<close>

fun getDocs_each ::
  "git_clone \<Rightarrow> libraries \<Rightarrow> string list \<Rightarrow> world \<Rightarrow> (error + docmap option) list \<times> world" where
  "getDocs_each git libs [] w = ([], w)"
| "getDocs_each git libs (k # ks) w =
     (let (r, w1) = (if k = [] then (Inl RangeError, w) else getDocs_lib git libs k w);
          (rs, w2) = getDocs_each git libs ks w1
      in (r # rs, w2))"

fun Promise_all :: "(error + 'a) list \<Rightarrow> error + 'a list" where
  "Promise_all [] = Inr []"
| "Promise_all (r # rs) =
     (case r of
        Inl e \<Rightarrow> Inl e
      | Inr x \<Rightarrow> (case Promise_all rs of Inl e \<Rightarrow> Inl e | Inr xs \<Rightarrow> Inr (x # xs)))"

datatype result = Undefined | DocMap docmap | DocList "document list"

definition getDocs_all :: "git_clone \<Rightarrow> libraries \<Rightarrow> world \<Rightarrow> (error + result) \<times> world" where
  "getDocs_all git libs w =
     (let (rs, w') = getDocs_each git libs (map fst libs) w in
      (case Promise_all rs of
         Inl e \<Rightarrow> (Inl e, w')
       | Inr ds \<Rightarrow>
           (Inr (DocList (concat (map (\<lambda>c. map snd (the c)) (filter (\<lambda>c. c \<noteq> None) ds)))),
            w')))"

text \<open>
  \<open>getDocs(lib?)\<close>: \<open>!lib\<close> holds for a missing argument and for the empty string.
\<close>

definition getDocs ::
  "git_clone \<Rightarrow> libraries \<Rightarrow> string option \<Rightarrow> world \<Rightarrow> (error + result) \<times> world" where
  "getDocs git libs lib w =
     (if lib = None \<or> lib = Some [] then getDocs_all git libs w
      else (case getDocs_lib git libs (the lib) w of
              (Inl e, w') \<Rightarrow> (Inl e, w')
            | (Inr None, w') \<Rightarrow> (Inr Undefined, w')
            | (Inr (Some m), w') \<Rightarrow> (Inr (DocMap m), w')))"

text \<open>
  The entry path of a library and the files that \<open>getDocs\<close> crawls for it in a given
  state (the state after the clone), for stating properties of the result.
\<close>

definition entry_of :: "libraries \<Rightarrow> string \<Rightarrow> string" where
  "entry_of libs lib = (case getParams libs lib of None \<Rightarrow> [] | Some p \<Rightarrow> entry p)"

definition crawled :: "libraries \<Rightarrow> string \<Rightarrow> world \<Rightarrow> string list" where
  "crawled libs lib w =
     (case lstat (fs w) (entry_of libs lib) of
        None \<Rightarrow> []
      | Some n \<Rightarrow> crawl (entry_of libs lib) (Some (test MARKDOWN_REGEX)) n [])"

section \<open>Example data\<close>

text \<open>
  A repository checkout, two clone behaviours (one that always succeeds by mounting the
  checkout at the requested directory, one that fails for the repository \<open>o/a\<close>) and a
  library table, used to run the model on concrete inputs.
\<close>

definition doc_text :: string where
  "doc_text = ''---'' @ [newline] @ ''title: X'' @ [newline] @ ''---'' @ [newline] @ ''Body''"

definition hidden_text :: string where
  "hidden_text = ''<!-- --> '' @ [newline] @ ''---'' @ [newline] @ ''title: A'' @ [newline]
                 @ ''---'' @ [newline] @ ''<!-- hidden -->Visible''"

definition checkout :: node where
  "checkout = Dir [(''docs'', Dir [(''guide'', Dir [(''intro.md'', File doc_text)]),
                                   (''a.md'', File ''one''), (''a.mdx'', File ''two''),
                                   (''notes.txt'', File ''skip'')]),
                   (''README.md'', File ''Read me'')]"

fun mount :: "string \<Rightarrow> node \<Rightarrow> node \<Rightarrow> node" where
  "mount name n (Dir entries) = Dir (filter (\<lambda>e. fst e \<noteq> name) entries @ [(name, n)])"
| "mount name n (File bytes) = File bytes"

definition git_ok :: git_clone where
  "git_ok req w = Inr (mount (tl (c_dir req)) checkout (fs w))"

definition git_flaky :: git_clone where
  "git_flaky req w =
     (if url req = ''https://github.com/o/a'' then Inl (AcquisitionFailure ''o/a'')
      else git_ok req w)"

definition libs0 :: libraries where
  "libs0 = [(''a'', \<lparr>docs = Some \<lparr>dir = Some ''docs'', repo = ''o/a'', branch = None\<rparr>\<rparr>),
            (''b'', \<lparr>docs = Some \<lparr>dir = Some ''docs/guide'', repo = ''o/b'', branch = Some ''dev''\<rparr>\<rparr>),
            (''c'', \<lparr>docs = None\<rparr>),
            (''d'', \<lparr>docs = Some \<lparr>dir = Some ''README.md'', repo = ''o/b'', branch = Some ''dev''\<rparr>\<rparr>),
            (''e'', \<lparr>docs = Some \<lparr>dir = None, repo = ''o/a'', branch = Some ''main''\<rparr>\<rparr>)]"

definition libs9 :: libraries where
  "libs9 = [(''x'', \<lparr>docs = Some \<lparr>dir = None, repo = ''pmndrs/zustand'', branch = None\<rparr>\<rparr>),
            (''y'', \<lparr>docs = Some \<lparr>dir = Some ''docs'', repo = ''pmndrs/zustand'', branch = None\<rparr>\<rparr>)]"

definition w0 :: world where
  "w0 = \<lparr>fs = Dir [], clones = []\<rparr>"

definition doc_intro :: document where
  "doc_intro = \<lparr>path = ''guide/intro.md'', slug = [''a'', ''guide'', ''intro''],
                 data = [(''title'', ''X'')], content = ''Body''\<rparr>"

definition doc_mdx :: document where
  "doc_mdx = \<lparr>path = ''a.mdx'', slug = [''a'', ''a''], data = [], content = ''two''\<rparr>"

definition doc_readme :: document where
  "doc_readme = \<lparr>path = ''/o-b-dev/README.md'', slug = [''d'', [], ''o-b-dev'', ''README''],
                  data = [], content = ''Read me''\<rparr>"

definition world_a :: world where
  "world_a = \<lparr>fs = Dir [(''o-a-main'', checkout)],
              clones = [\<lparr>c_dir = ''/o-a-main'', url = ''https://github.com/o/a'', ref = ''main''\<rparr>]\<rparr>"

definition world_d :: world where
  "world_d = \<lparr>fs = Dir [(''o-b-dev'', checkout)],
              clones = [\<lparr>c_dir = ''/o-b-dev'', url = ''https://github.com/o/b'', ref = ''dev''\<rparr>]\<rparr>"

definition libs1 :: libraries where
  "libs1 = [(''b'', \<lparr>docs = Some \<lparr>dir = Some ''docs/guide'', repo = ''o/b'', branch = Some ''dev''\<rparr>\<rparr>)]"

definition doc_b :: document where
  "doc_b = \<lparr>path = ''intro.md'', slug = [''b'', ''intro''], data = [(''title'', ''X'')],
             content = ''Body''\<rparr>"

definition single_file :: "string \<Rightarrow> node" where
  "single_file text = Dir [(''f.md'', File text)]"

definition comment_text :: string where
  "comment_text = ''a<!-- b -->c''"

definition doc_hidden :: document where
  "doc_hidden = \<lparr>path = ''f.md'', slug = [''lib'', ''f''], data = [],
                  content = ''---'' @ [newline] @ ''title: A'' @ [newline] @ ''---'' @ [newline]
                            @ ''<!-- hiddenVisible''\<rparr>"

definition libs2 :: libraries where
  "libs2 = [(''a'', \<lparr>docs = Some \<lparr>dir = Some ''docs'', repo = ''o/a'', branch = None\<rparr>\<rparr>),
            (''b'', \<lparr>docs = Some \<lparr>dir = Some ''docs/guide'', repo = ''o/b'', branch = Some ''dev''\<rparr>\<rparr>)]"

definition request_a :: clone_request where
  "request_a = \<lparr>c_dir = ''/o-a-main'', url = ''https://github.com/o/a'', ref = ''main''\<rparr>"

definition request_b :: clone_request where
  "request_b = \<lparr>c_dir = ''/o-b-dev'', url = ''https://github.com/o/b'', ref = ''dev''\<rparr>"

section \<open>Properties\<close>

subsection \<open>The crawl\<close>

text \<open>The accumulator is only ever extended.\<close>

lemma crawl_each_acc_step:
  assumes "\<And>name child d files. (name, child) \<in> set es
             \<Longrightarrow> crawl d flt child files = files @ crawl d flt child []"
  shows "crawl_each d flt es files = files @ crawl_each d flt es []"
  using assms
proof (induction es arbitrary: files)
  case Nil
  show ?case by simp
next
  case (Cons e es)
  obtain name child where e: "e = (name, child)" by (cases e)
  have c: "crawl (d @ ''/'' @ name) flt child files = files @ crawl (d @ ''/'' @ name) flt child []"
    by (rule Cons.prems[of name child]) (simp add: e)
  have r: "crawl_each d flt es acc = acc @ crawl_each d flt es []" for acc
  proof (rule Cons.IH)
    fix name' child' d' files'
    assume "(name', child') \<in> set es"
    then show "crawl d' flt child' files' = files' @ crawl d' flt child' []"
      by (intro Cons.prems[of name' child']) simp
  qed
  have "crawl_each d flt (e # es) files
          = crawl (d @ ''/'' @ name) flt child files @ crawl_each d flt es []"
    unfolding e crawl_each.simps by (rule r)
  also have "\<dots> = files @ (crawl (d @ ''/'' @ name) flt child [] @ crawl_each d flt es [])"
    by (subst c) simp
  also have "crawl (d @ ''/'' @ name) flt child [] @ crawl_each d flt es []
          = crawl_each d flt (e # es) []"
    unfolding e crawl_each.simps by (rule r[symmetric])
  finally show ?case .
qed

lemma crawl_acc: "crawl d flt n files = files @ crawl d flt n []"
proof (induction n arbitrary: d files)
  case (File bytes)
  show ?case by simp
next
  case (Dir es)
  have "crawl_each d flt es files = files @ crawl_each d flt es []"
  proof (rule crawl_each_acc_step)
    fix name child d' files'
    assume "(name, child) \<in> set es"
    then show "crawl d' flt child files' = files' @ crawl d' flt child []"
      using Dir.IH[of "(name, child)" child d' files'] by simp
  qed
  then show ?case by simp
qed

lemma crawl_each_acc: "crawl_each d flt es files = files @ crawl_each d flt es []"
  by (rule crawl_each_acc_step) (rule crawl_acc)

lemma crawl_each_Cons:
  "crawl_each d flt ((name, child) # es) [] =
     crawl (d @ ''/'' @ name) flt child [] @ crawl_each d flt es []"
  using crawl_each_acc[of d flt es "crawl (d @ ''/'' @ name) flt child []"] by simp

lemma file_at_File [simp]: "file_at p (File bytes) q \<longleftrightarrow> q = p"
  by (auto elim: file_at.cases intro: file_at.intros)

lemma file_at_Dir:
  "file_at p (Dir es) q \<longleftrightarrow>
     (\<exists>name child. (name, child) \<in> set es \<and> file_at (p @ ''/'' @ name) child q)"
  by (subst file_at.simps) auto

lemma set_crawl_each_step:
  assumes "\<And>name child d. (name, child) \<in> set es
             \<Longrightarrow> set (crawl d flt child []) = {q. file_at d child q \<and> passes flt q}"
  shows "set (crawl_each d flt es []) =
           {q. \<exists>name child. (name, child) \<in> set es
                  \<and> file_at (d @ ''/'' @ name) child q \<and> passes flt q}"
  using assms
proof (induction es)
  case Nil
  show ?case by simp
next
  case (Cons e es)
  obtain name child where e: "e = (name, child)" by (cases e)
  have 1: "set (crawl (d @ ''/'' @ name) flt child []) =
             {q. file_at (d @ ''/'' @ name) child q \<and> passes flt q}"
    using Cons.prems[of name child] e by simp
  have 2: "set (crawl_each d flt es []) =
             {q. \<exists>name child. (name, child) \<in> set es
                  \<and> file_at (d @ ''/'' @ name) child q \<and> passes flt q}"
  proof (rule Cons.IH)
    fix name' child' d'
    assume "(name', child') \<in> set es"
    then show "set (crawl d' flt child' []) = {q. file_at d' child' q \<and> passes flt q}"
      by (intro Cons.prems[of name' child']) simp
  qed
  show ?case
    unfolding e crawl_each_Cons set_append 1 2 by auto
qed

lemma set_crawl: "set (crawl d flt n []) = {q. file_at d n q \<and> passes flt q}"
proof (induction n arbitrary: d)
  case (File bytes)
  show ?case by (auto simp: passes_def)
next
  case (Dir es)
  have "set (crawl_each d flt es []) =
           {q. \<exists>name child. (name, child) \<in> set es
                  \<and> file_at (d @ ''/'' @ name) child q \<and> passes flt q}"
  proof (rule set_crawl_each_step)
    fix name child d'
    assume "(name, child) \<in> set es"
    then show "set (crawl d' flt child []) = {q. file_at d' child q \<and> passes flt q}"
      using Dir.IH[of "(name, child)" child d'] by simp
  qed
  then show ?case by (auto simp: file_at_Dir)
qed

text \<open>Every path below \<open>p\<close> is \<open>p\<close> itself or \<open>p\<close>, a separator and a remainder.\<close>

lemma file_at_shape: "file_at p n q \<Longrightarrow> q = p \<or> (\<exists>r. q = p @ ''/'' @ r)"
  by (induction rule: file_at.induct) auto

lemma file_at_Dir_shape: "file_at p (Dir es) q \<Longrightarrow> \<exists>r. q = p @ ''/'' @ r"
  by (auto simp: file_at_Dir dest!: file_at_shape)

lemma takeWhile_name:
  "c \<notin> set n \<Longrightarrow> s = [] \<or> hd s = c \<and> s \<noteq> [] \<Longrightarrow> takeWhile (\<lambda>x. x \<noteq> c) (n @ s) = n"
  by (induction n) (auto simp: takeWhile_eq_Nil_iff neq_Nil_conv)

lemma sibling_paths_differ:
  assumes "file_at (d @ ''/'' @ n1) c1 q" and "file_at (d @ ''/'' @ n2) c2 q"
    and "CHR ''/'' \<notin> set n1" and "CHR ''/'' \<notin> set n2"
  shows "n1 = n2"
proof -
  from assms(1) obtain s where s: "q = d @ ''/'' @ n1 @ s" "s = [] \<or> hd s = CHR ''/'' \<and> s \<noteq> []"
    by (auto dest!: file_at_shape)
  from assms(2) obtain t where t: "q = d @ ''/'' @ n2 @ t" "t = [] \<or> hd t = CHR ''/'' \<and> t \<noteq> []"
    by (auto dest!: file_at_shape)
  have eq: "n1 @ s = n2 @ t" using s(1) t(1) by simp
  have "takeWhile (\<lambda>c. c \<noteq> CHR ''/'') (n1 @ s) = n1"
    using s(2) assms(3) by (rule takeWhile_name[rotated])
  moreover have "takeWhile (\<lambda>c. c \<noteq> CHR ''/'') (n2 @ t) = n2"
    using t(2) assms(4) by (rule takeWhile_name[rotated])
  ultimately show ?thesis using eq by simp
qed

lemma distinct_crawl_each_step:
  assumes "\<And>name child d. (name, child) \<in> set es \<Longrightarrow> distinct (crawl d flt child [])"
    and "distinct (map fst es)" and "\<forall>e \<in> set es. CHR ''/'' \<notin> set (fst e)"
  shows "distinct (crawl_each d flt es [])"
  using assms
proof (induction es)
  case Nil
  show ?case by simp
next
  case (Cons e es)
  obtain name child where e: "e = (name, child)" by (cases e)
  have 1: "distinct (crawl (d @ ''/'' @ name) flt child [])"
    using Cons.prems(1)[of name child] e by simp
  have 2: "distinct (crawl_each d flt es [])"
  proof (rule Cons.IH)
    fix name' child' d'
    assume "(name', child') \<in> set es"
    then show "distinct (crawl d' flt child' [])"
      by (intro Cons.prems(1)[of name' child']) simp
  qed (use Cons.prems in simp_all)
  have 3: "set (crawl (d @ ''/'' @ name) flt child []) \<inter> set (crawl_each d flt es []) = {}"
  proof (rule ccontr)
    assume "\<not> ?thesis"
    then obtain q where q1: "q \<in> set (crawl (d @ ''/'' @ name) flt child [])"
      and q2: "q \<in> set (crawl_each d flt es [])" by auto
    from q1 have f1: "file_at (d @ ''/'' @ name) child q" by (simp add: set_crawl)
    from q2 obtain name' child' where m: "(name', child') \<in> set es"
      and f2: "file_at (d @ ''/'' @ name') child' q"
      using set_crawl_each_step[of es flt d, OF set_crawl] by auto
    have "name = name'"
      using sibling_paths_differ[OF f1 f2] Cons.prems(3) m e by auto
    then show False using Cons.prems(2) m e by force
  qed
  show ?case using 1 2 3 unfolding e crawl_each_Cons by simp
qed
lemma distinct_crawl: "wf_node n \<Longrightarrow> distinct (crawl d flt n [])"
proof (induction n arbitrary: d)
  case (File bytes)
  show ?case by simp
next
  case (Dir es)
  have "distinct (crawl_each d flt es [])"
  proof (rule distinct_crawl_each_step)
    fix name child d'
    assume "(name, child) \<in> set es"
    then show "distinct (crawl d' flt child [])"
      using Dir.IH[of "(name, child)" child d'] Dir.prems by auto
  qed (use Dir.prems in auto)
  then show ?case by simp
qed

lemma checkout_crawl:
  "crawl ''/o-a-main'' (Some (test MARKDOWN_REGEX)) checkout [] =
     [''/o-a-main/docs/guide/intro.md'', ''/o-a-main/docs/a.md'', ''/o-a-main/docs/a.mdx'',
      ''/o-a-main/README.md'']"
  by code_simp

text \<open>
  C4. On a well-formed finite tree and for every filter, \<open>crawl(root, filter)\<close> returns a
  list without duplicates whose elements are exactly the paths of the files under \<open>root\<close>
  that match the filter (every path when no filter is given); when \<open>root\<close> is itself a
  file, the list is \<open>[root]\<close> if \<open>root\<close> matches and empty otherwise.
\<close>

theorem crawl_complete:
  assumes "wf_node n"
  shows "distinct (crawl root flt n [])
       \<and> set (crawl root flt n []) = {q. file_at root n q \<and> passes flt q}
       \<and> (\<forall>bytes. n = File bytes \<longrightarrow>
            crawl root flt n [] = (if passes flt root then [root] else []))"
  using assms by (auto simp: distinct_crawl set_crawl passes_def)

theorem crawl_complete_witness:
  "wf_node checkout
   \<and> {q. file_at ''/o-a-main'' checkout q \<and> passes (Some (test MARKDOWN_REGEX)) q} =
       {''/o-a-main/docs/guide/intro.md'', ''/o-a-main/docs/a.md'', ''/o-a-main/docs/a.mdx'',
        ''/o-a-main/README.md''}
   \<and> wf_node (File ''one'')
   \<and> crawl ''/r/a.md'' (Some (test MARKDOWN_REGEX)) (File ''one'') [] = [''/r/a.md'']
   \<and> crawl ''/r/a.txt'' (Some (test MARKDOWN_REGEX)) (File ''one'') [] = []
   \<and> crawl ''/r/a.txt'' None (File ''one'') [] = [''/r/a.txt'']"
proof -
  have wf: "wf_node checkout" by (simp add: checkout_def)
  have md: "passes (Some (test MARKDOWN_REGEX)) ''/r/a.md''"
    and other: "\<not> passes (Some (test MARKDOWN_REGEX)) ''/r/a.txt''"
    by (simp_all add: passes_def) code_simp+
  have 1: "{q. file_at ''/o-a-main'' checkout q \<and> passes (Some (test MARKDOWN_REGEX)) q} =
       {''/o-a-main/docs/guide/intro.md'', ''/o-a-main/docs/a.md'', ''/o-a-main/docs/a.mdx'',
        ''/o-a-main/README.md''}"
    using crawl_complete[OF wf, of "''/o-a-main''" "Some (test MARKDOWN_REGEX)"]
    unfolding checkout_crawl by simp
  have 2: "crawl ''/r/a.md'' (Some (test MARKDOWN_REGEX)) (File ''one'') [] = [''/r/a.md'']"
    using crawl_complete[of "File ''one''" "''/r/a.md''" "Some (test MARKDOWN_REGEX)"] md
    by simp
  have 3: "crawl ''/r/a.txt'' (Some (test MARKDOWN_REGEX)) (File ''one'') [] = []"
    using crawl_complete[of "File ''one''" "''/r/a.txt''" "Some (test MARKDOWN_REGEX)"] other
    by simp
  have 4: "crawl ''/r/a.txt'' None (File ''one'') [] = [''/r/a.txt'']"
    using crawl_complete[of "File ''one''" "''/r/a.txt''" None]
    by (simp add: passes_def)
  show ?thesis using wf 1 2 3 4 by simp
qed

subsection \<open>Cache key\<close>

text \<open>
  C9. The cache slot \<open>gitDir\<close> that \<open>getParams\<close> derives is \<open>'/'\<close>, then the repository
  coordinate with its (first) separator replaced by \<open>'-'\<close>, then \<open>'-'\<close>, then the branch, the
  branch being \<open>main\<close> when the configuration has none. The \<open>dir\<close> value plays no part: two
  configurations with the same repository and branch get the same slot whatever their
  \<open>dir\<close> values. A missing or empty \<open>dir\<close> makes the slot itself the entry path.
\<close>

theorem getParams_cache_key:
  assumes "map_of libs lib = Some c" and "docs c = Some d"
    and "map_of libs' lib' = Some c'" and "docs c' = Some d'"
    and "repo d' = repo d" and "branch d' = branch d"
  shows "\<exists>p p'. getParams libs lib = Some p \<and> getParams libs' lib' = Some p'
           \<and> gitDir p' = gitDir p
           \<and> gitDir p = ''/'' @ replace_str ''/'' ''-'' (repo d) @ ''-''
                          @ (case branch d of None \<Rightarrow> ''main'' | Some b \<Rightarrow> b)
           \<and> (dir d = None \<or> dir d = Some [] \<longrightarrow> entry p = gitDir p)"
  using assms by (auto simp: getParams_def Let_def split: option.splits)

theorem getParams_cache_key_witness:
  "gitDir (the (getParams libs9 ''x'')) = ''/pmndrs-zustand-main''
   \<and> gitDir (the (getParams libs9 ''y'')) = ''/pmndrs-zustand-main''
   \<and> entry (the (getParams libs9 ''x'')) = ''/pmndrs-zustand-main''
   \<and> entry (the (getParams libs9 ''y'')) \<noteq> entry (the (getParams libs9 ''x''))"
proof -
  let ?dx = "\<lparr>dir = None, repo = ''pmndrs/zustand'', branch = None\<rparr>"
  let ?dy = "\<lparr>dir = Some ''docs'', repo = ''pmndrs/zustand'', branch = None\<rparr>"
  have x: "map_of libs9 ''x'' = Some \<lparr>docs = Some ?dx\<rparr>"
    and y: "map_of libs9 ''y'' = Some \<lparr>docs = Some ?dy\<rparr>"
    by (simp_all add: libs9_def)
  have "entry (the (getParams libs9 ''y'')) = ''/pmndrs-zustand-main/docs''"
    by (simp add: getParams_def y Let_def)
  then show ?thesis
    using getParams_cache_key[OF x _ y, of ?dx ?dy] by auto
qed

subsection \<open>Strings\<close>

lemma replace_str_prefix: "pat \<noteq> [] \<Longrightarrow> replace_str pat rep (pat @ s) = rep @ s"
  by (cases pat) auto

lemma split_on_nonempty [simp]: "split_on sep s \<noteq> []"
  by (induction s) (auto split: list.splits)

lemma split_on_append:
  "sep \<notin> set b \<Longrightarrow>
     split_on sep (a @ b) = butlast (split_on sep a) @ [last (split_on sep a) @ b]"
proof (induction a)
  case Nil
  then show ?case by (induction b) (auto split: list.splits)
next
  case (Cons c a)
  then show ?case by (auto split: list.splits)
qed

subsection \<open>The markdown extension\<close>

lemma exec_from_Nil:
  "exec_from n r [] = (case matches n r [] of [] \<Rightarrow> None | t # ts \<Rightarrow> Some ([], t))"
  by (simp split: list.splits)

lemma exec_from_Cons:
  "exec_from n r (c # s) =
     (case matches n r (c # s) of [] \<Rightarrow> exec_from n r s | t # ts \<Rightarrow> Some (c # s, t))"
  by (simp split: list.splits)

declare exec_from.simps [simp del]

lemma matches_MARKDOWN:
  "matches n MARKDOWN_REGEX s = (if s = ''.md'' \<or> s = ''.mdx'' then [[]] else [])"
  by (auto simp: MARKDOWN_REGEX_def prefix_def)

lemma exec_MARKDOWN_None:
  "exec_from n MARKDOWN_REGEX s = None \<longleftrightarrow> \<not> (suffix ''.md'' s \<or> suffix ''.mdx'' s)"
proof (induction s)
  case Nil
  show ?case by (simp add: exec_from_Nil matches_MARKDOWN)
next
  case (Cons c s)
  show ?case
  proof (cases "c # s = ''.md'' \<or> c # s = ''.mdx''")
    case True
    then show ?thesis by (auto simp: exec_from_Cons matches_MARKDOWN)
  next
    case False
    then have "suffix ''.md'' (c # s) = suffix ''.md'' s"
      and "suffix ''.mdx'' (c # s) = suffix ''.mdx'' s"
      by (auto simp: suffix_Cons)
    with False Cons show ?thesis by (auto simp: exec_from_Cons matches_MARKDOWN)
  qed
qed

lemma test_MARKDOWN: "test MARKDOWN_REGEX s \<longleftrightarrow> suffix ''.md'' s \<or> suffix ''.mdx'' s"
  by (simp add: test_def exec_MARKDOWN_None)

lemma exec_MARKDOWN_ext:
  "ext = ''.md'' \<or> ext = ''.mdx'' \<Longrightarrow>
     exec_from n MARKDOWN_REGEX (stem @ ext) = Some (ext, [])"
proof (induction stem)
  case Nil
  then show ?case by (auto simp: exec_from_Cons matches_MARKDOWN)
next
  case (Cons c stem)
  have "c # stem @ ext \<noteq> ''.md''" "c # stem @ ext \<noteq> ''.mdx''"
    using Cons.prems by (auto simp: Cons_eq_append_conv append_eq_Cons_conv)
  then show ?case
    using Cons by (simp add: exec_from_Cons matches_MARKDOWN)
qed

lemma replace_first_MARKDOWN:
  "ext = ''.md'' \<or> ext = ''.mdx'' \<Longrightarrow> replace_first MARKDOWN_REGEX (stem @ ext) = stem"
  by (auto simp: replace_first_def exec_MARKDOWN_ext)

lemma suffix_after_separator:
  assumes "suffix ext (p @ ''/'' @ rel)" and "CHR ''/'' \<notin> set ext"
  shows "suffix ext rel"
proof -
  define a where "a = p @ ''/''"
  have a: "a \<noteq> []" "last a = CHR ''/''" by (simp_all add: a_def)
  from assms(1) obtain zs where "a @ rel = zs @ ext" by (auto simp: suffix_def a_def)
  then consider us where "a = zs @ us" "us @ rel = ext"
    | us where "a @ us = zs" "rel = us @ ext"
    by (auto simp: append_eq_append_conv2)
  then show ?thesis
  proof cases
    case 1
    show ?thesis
    proof (cases "us = []")
      case True
      then show ?thesis using 1 by simp
    next
      case False
      then have "last us = CHR ''/''"
        using 1(1) a by simp
      then have "CHR ''/'' \<in> set ext"
        using False 1(2) by (metis last_in_set set_append UnI1)
      then show ?thesis using assms(2) by simp
    qed
  next
    case 2
    then show ?thesis by (simp add: suffix_def)
  qed
qed

lemma markdown_stem:
  assumes "test MARKDOWN_REGEX (p @ ''/'' @ rel)"
  shows "\<exists>stem ext. rel = stem @ ext \<and> (ext = ''.md'' \<or> ext = ''.mdx'')"
proof -
  from assms have "suffix ''.md'' (p @ ''/'' @ rel) \<or> suffix ''.mdx'' (p @ ''/'' @ rel)"
    by (simp add: test_MARKDOWN)
  then have "suffix ''.md'' rel \<or> suffix ''.mdx'' rel"
    using suffix_after_separator[of _ p rel] by auto
  then show ?thesis by (auto simp: suffix_def)
qed

subsection \<open>The document map\<close>

lemma map_of_map_set: "map_of (map_set k v m) = (map_of m)(k \<mapsto> v)"
  by (induction m) (auto simp: fun_eq_iff)

lemma keys_map_set:
  "map fst (map_set k v m) = (if k \<in> fst ` set m then map fst m else map fst m @ [k])"
  by (induction m) force+

lemma distinct_map_set: "distinct (map fst m) \<Longrightarrow> distinct (map fst (map_set k v m))"
  by (simp add: keys_map_set)

lemma set_map_set: "e \<in> set (map_set k v m) \<Longrightarrow> e = (k, v) \<or> e \<in> set m"
  by (induction m) (auto split: if_splits)

lemma single_entry:
  "distinct (map fst m) \<Longrightarrow> map_of m k = Some d \<Longrightarrow> filter (\<lambda>e. fst e = k) m = [(k, d)]"
proof (induction m)
  case Nil
  then show ?case by simp
next
  case (Cons e m)
  obtain k' d' where e: "e = (k', d')" by (cases e)
  show ?case
  proof (cases "k' = k")
    case True
    then have "filter (\<lambda>e. fst e = k) m = []"
      using Cons.prems(1) e by (auto simp: filter_empty_conv image_iff)
    then show ?thesis using True Cons.prems(2) e by simp
  next
    case False
    then show ?thesis using Cons e by simp
  qed
qed

lemma parse_file_fields:
  assumes "parse_file root lib entry' file = Inr (k, d)"
  shows "k = file_key lib entry' file" and "slug d = file_slug lib entry' file"
    and "path d = file_path entry' file" and "k = join ''/'' (slug d)"
  using assms
  by (auto simp: parse_file_def file_key_def split: sum.splits prod.splits)

lemma forEach_file_origin:
  "forEach_file root lib entry' files m0 = Inr m \<Longrightarrow> e \<in> set m \<Longrightarrow>
     e \<in> set m0 \<or> (\<exists>file \<in> set files. parse_file root lib entry' file = Inr e)"
proof (induction files arbitrary: m0)
  case Nil
  then show ?case by simp
next
  case (Cons f files)
  from Cons.prems(1) obtain k d where p: "parse_file root lib entry' f = Inr (k, d)"
    and r: "forEach_file root lib entry' files (map_set k d m0) = Inr m"
    by (auto split: sum.splits)
  from Cons.IH[OF r Cons.prems(2)] show ?case
    using p set_map_set[of e k d m0] by auto
qed

lemma forEach_file_distinct:
  "forEach_file root lib entry' files m0 = Inr m \<Longrightarrow> distinct (map fst m0)
     \<Longrightarrow> distinct (map fst m)"
proof (induction files arbitrary: m0)
  case Nil
  then show ?case by simp
next
  case (Cons f files)
  from Cons.prems(1) obtain k d where
    r: "forEach_file root lib entry' files (map_set k d m0) = Inr m"
    by (auto split: sum.splits)
  show ?case by (rule Cons.IH[OF r]) (rule distinct_map_set[OF Cons.prems(2)])
qed

lemma forEach_file_last:
  assumes "forEach_file root lib entry' files m0 = Inr m"
  shows "(k \<notin> file_key lib entry' ` set files \<longrightarrow> map_of m k = map_of m0 k)
       \<and> (k \<in> file_key lib entry' ` set files \<longrightarrow>
            (\<exists>d. map_of m k = Some d
               \<and> parse_file root lib entry'
                    (last (filter (\<lambda>g. file_key lib entry' g = k) files)) = Inr (k, d)))"
  using assms
proof (induction files arbitrary: m0)
  case Nil
  then show ?case by simp
next
  case (Cons f files)
  from Cons.prems obtain kf df where p: "parse_file root lib entry' f = Inr (kf, df)"
    and r: "forEach_file root lib entry' files (map_set kf df m0) = Inr m"
    by (auto split: sum.splits)
  have kf: "kf = file_key lib entry' f" using p by (rule parse_file_fields)
  note IH = Cons.IH[OF r]
  show ?case
  proof (cases "k \<in> file_key lib entry' ` set files")
    case True
    then have "filter (\<lambda>g. file_key lib entry' g = k) files \<noteq> []"
      by (auto simp: filter_empty_conv)
    then have "last (filter (\<lambda>g. file_key lib entry' g = k) (f # files))
             = last (filter (\<lambda>g. file_key lib entry' g = k) files)"
      by simp
    then show ?thesis using IH True by auto
  next
    case False
    then have none: "filter (\<lambda>g. file_key lib entry' g = k) files = []"
      by (auto simp: filter_empty_conv)
    have m: "map_of m k = map_of (map_set kf df m0) k" using IH False by simp
    show ?thesis
    proof (cases "kf = k")
      case True
      then show ?thesis using m none p kf by (simp add: map_of_map_set)
    next
      case False
      then show ?thesis using m \<open>k \<notin> file_key lib entry' ` set files\<close> kf
        by (simp add: map_of_map_set)
    qed
  qed
qed

text \<open>What a successful call of \<open>getDocs\<close> for one library went through.\<close>

lemma getDocs_DocMap:
  assumes "getDocs git libs (Some lib) w = (Inr (DocMap m), w')"
  obtains p n where "lib \<noteq> []" and "getParams libs lib = Some p"
    and "lstat (fs w') (entry p) = Some n"
    and "forEach_file (fs w') lib (entry p)
           (crawl (entry p) (Some (test MARKDOWN_REGEX)) n []) [] = Inr m"
proof -
  have lib: "lib \<noteq> []"
    using assms
    by (auto simp: getDocs_def getDocs_all_def split: prod.splits sum.splits)
  then have "getDocs_lib git libs lib w = (Inr (Some m), w')"
    using assms by (auto simp: getDocs_def split: prod.splits sum.splits option.splits)
  then show thesis
    using lib that
    by (auto simp: getDocs_lib_def Let_def split: option.splits sum.splits)
qed

subsection \<open>Runs on the example data\<close>

lemma run_a:
  "getDocs git_ok libs0 (Some ''a'') w0 =
     (Inr (DocMap [(''a/guide/intro'', doc_intro), (''a/a'', doc_mdx)]), world_a)"
  by code_simp

lemma run_d:
  "getDocs git_ok libs0 (Some ''d'') w0 = (Inr (DocMap [(''d//o-b-dev/README'', doc_readme)]), world_d)"
  by code_simp

lemma crawled_a:
  "crawled libs0 ''a'' world_a =
     [''/o-a-main/docs/guide/intro.md'', ''/o-a-main/docs/a.md'', ''/o-a-main/docs/a.mdx'']"
  by code_simp

lemma entry_a: "entry_of libs0 ''a'' = ''/o-a-main/docs''"
  by code_simp

subsection \<open>Slug collisions\<close>

lemma getDocs_crawled:
  assumes "getDocs git libs (Some lib) w = (Inr (DocMap m), w')"
  shows "forEach_file (fs w') lib (entry_of libs lib) (crawled libs lib w') [] = Inr m"
  using assms by (rule getDocs_DocMap) (simp add: crawled_def entry_of_def)

text \<open>
  C7. When \<open>getDocs(lib)\<close> returns its map, then for every crawled file the map has
  exactly one entry under the slug key of that file, and this entry is the document of the
  file processed last among the crawled files that derive the same key.
\<close>

theorem last_write_wins:
  assumes "getDocs git libs (Some lib) w = (Inr (DocMap m), w')"
    and "f \<in> set (crawled libs lib w')"
  shows "\<exists>d. filter (\<lambda>e. fst e = file_key lib (entry_of libs lib) f) m
               = [(file_key lib (entry_of libs lib) f, d)]
            \<and> parse_file (fs w') lib (entry_of libs lib)
                 (last (filter (\<lambda>g. file_key lib (entry_of libs lib) g
                                      = file_key lib (entry_of libs lib) f)
                          (crawled libs lib w')))
               = Inr (file_key lib (entry_of libs lib) f, d)"
proof -
  let ?k = "file_key lib (entry_of libs lib) f"
  note run = getDocs_crawled[OF assms(1)]
  have "?k \<in> file_key lib (entry_of libs lib) ` set (crawled libs lib w')"
    using assms(2) by simp
  with forEach_file_last[OF run, of ?k] obtain d where d: "map_of m ?k = Some d"
    and l: "parse_file (fs w') lib (entry_of libs lib)
              (last (filter (\<lambda>g. file_key lib (entry_of libs lib) g = ?k)
                       (crawled libs lib w'))) = Inr (?k, d)"
    by auto
  have "distinct (map fst m)"
    using forEach_file_distinct[OF run] by simp
  then have "filter (\<lambda>e. fst e = ?k) m = [(?k, d)]"
    using d by (rule single_entry)
  with l show ?thesis by blast
qed

theorem last_write_wins_witness:
  "getDocs git_ok libs0 (Some ''a'') w0 =
     (Inr (DocMap [(''a/guide/intro'', doc_intro), (''a/a'', doc_mdx)]), world_a)
   \<and> ''/o-a-main/docs/a.md'' \<in> set (crawled libs0 ''a'' world_a)
   \<and> file_key ''a'' ''/o-a-main/docs'' ''/o-a-main/docs/a.md'' = ''a/a''
   \<and> file_key ''a'' ''/o-a-main/docs'' ''/o-a-main/docs/a.mdx'' = ''a/a''
   \<and> (\<exists>d. filter (\<lambda>e. fst e = ''a/a'') [(''a/guide/intro'', doc_intro), (''a/a'', doc_mdx)]
               = [(''a/a'', d)]
          \<and> parse_file (fs world_a) ''a'' ''/o-a-main/docs'' ''/o-a-main/docs/a.mdx''
              = Inr (''a/a'', d))"
proof -
  have mem: "''/o-a-main/docs/a.md'' \<in> set (crawled libs0 ''a'' world_a)"
    by (simp add: crawled_a)
  have k1: "file_key ''a'' ''/o-a-main/docs'' ''/o-a-main/docs/a.md'' = ''a/a''"
    and k2: "file_key ''a'' ''/o-a-main/docs'' ''/o-a-main/docs/a.mdx'' = ''a/a''"
    and k3: "file_key ''a'' ''/o-a-main/docs'' ''/o-a-main/docs/guide/intro.md'' = ''a/guide/intro''"
    by code_simp+
  show ?thesis
    using last_write_wins[OF run_a mem] run_a mem k1 k2
    by (simp add: entry_a crawled_a k3)
qed

subsection \<open>Slugs\<close>

lemma crawl_Dir_paths:
  assumes "file \<in> set (crawl entry' flt (Dir entries) [])"
  shows "\<exists>rel. file = entry' @ ''/'' @ rel" and "passes flt file"
proof -
  from assms have "file \<in> {q. file_at entry' (Dir entries) q \<and> passes flt q}"
    by (simp only: set_crawl)
  then show "\<exists>rel. file = entry' @ ''/'' @ rel" and "passes flt file"
    by (auto dest: file_at_Dir_shape)
qed

lemma slug_of_relative:
  assumes "ext = ''.md'' \<or> ext = ''.mdx''"
  shows "file_path entry' (entry' @ ''/'' @ stem @ ext) = stem @ ext"
    and "file_slug lib entry' (entry' @ ''/'' @ stem @ ext) = lib # split_on (CHR ''/'') stem"
proof -
  show p: "file_path entry' (entry' @ ''/'' @ stem @ ext) = stem @ ext"
    using replace_str_prefix[of "entry' @ ''/''" "[]" "stem @ ext"]
    by (simp add: file_path_def)
  show "file_slug lib entry' (entry' @ ''/'' @ stem @ ext) = lib # split_on (CHR ''/'') stem"
    unfolding file_slug_def p using assms by (simp add: replace_first_MARKDOWN)
qed

text \<open>
  C5. For every file crawled below an entry path that is a directory, the file path is
  the entry path, a separator and a relative path \<open>rel\<close> that ends in \<open>.md\<close> or \<open>.mdx\<close>,
  and the slug is the library id followed by the segments of \<open>rel\<close> split on \<open>/\<close>, with
  that extension dropped from the last segment. For the entry path \<open>/repo-main/docs\<close>, the
  file \<open>/repo-main/docs/guide/intro.md\<close> and the library id \<open>lib\<close>, the joined slug is
  \<open>lib/guide/intro\<close>.
\<close>

theorem slug_derivation:
  assumes "file \<in> set (crawl entry' (Some (test MARKDOWN_REGEX)) (Dir entries) [])"
  shows "(\<exists>rel seg ext. file = entry' @ ''/'' @ rel \<and> (ext = ''.md'' \<or> ext = ''.mdx'')
            \<and> last (split_on (CHR ''/'') rel) = seg @ ext
            \<and> file_slug lib entry' file = lib # butlast (split_on (CHR ''/'') rel) @ [seg])
       \<and> join ''/'' (file_slug ''lib'' ''/repo-main/docs'' ''/repo-main/docs/guide/intro.md'')
           = ''lib/guide/intro''"
proof
  from crawl_Dir_paths[OF assms] obtain rel where rel: "file = entry' @ ''/'' @ rel"
    and "test MARKDOWN_REGEX file"
    by (auto simp: passes_def)
  then obtain stem ext where se: "rel = stem @ ext" and ext: "ext = ''.md'' \<or> ext = ''.mdx''"
    using markdown_stem[of entry' rel] by auto
  have nosep: "CHR ''/'' \<notin> set ext" using ext by auto
  let ?segs = "split_on (CHR ''/'') stem"
  have sp: "split_on (CHR ''/'') rel = butlast ?segs @ [last ?segs @ ext]"
    unfolding se by (rule split_on_append[OF nosep])
  have "file_slug lib entry' file = lib # ?segs"
    unfolding rel se using slug_of_relative(2)[OF ext] .
  also have "?segs = butlast ?segs @ [last ?segs]" by simp
  finally have "file_slug lib entry' file
                  = lib # butlast (split_on (CHR ''/'') rel) @ [last ?segs]"
    by (simp add: sp)
  moreover have "last (split_on (CHR ''/'') rel) = last ?segs @ ext" by (simp add: sp)
  ultimately show "\<exists>rel seg ext. file = entry' @ ''/'' @ rel \<and> (ext = ''.md'' \<or> ext = ''.mdx'')
            \<and> last (split_on (CHR ''/'') rel) = seg @ ext
            \<and> file_slug lib entry' file = lib # butlast (split_on (CHR ''/'') rel) @ [seg]"
    using rel ext by blast
next
  show "join ''/'' (file_slug ''lib'' ''/repo-main/docs'' ''/repo-main/docs/guide/intro.md'')
           = ''lib/guide/intro''"
    by code_simp
qed

theorem slug_derivation_witness:
  "''/repo-main/docs/guide/intro.md''
     \<in> set (crawl ''/repo-main/docs'' (Some (test MARKDOWN_REGEX))
              (Dir [(''guide'', Dir [(''intro.md'', File doc_text)])]) [])
   \<and> (\<exists>rel seg ext. ''/repo-main/docs/guide/intro.md'' = ''/repo-main/docs'' @ ''/'' @ rel
          \<and> (ext = ''.md'' \<or> ext = ''.mdx'')
          \<and> last (split_on (CHR ''/'') rel) = seg @ ext
          \<and> file_slug ''lib'' ''/repo-main/docs'' ''/repo-main/docs/guide/intro.md''
              = ''lib'' # butlast (split_on (CHR ''/'') rel) @ [seg])
   \<and> file_slug ''lib'' ''/repo-main/docs'' ''/repo-main/docs/guide/intro.md''
       = [''lib'', ''guide'', ''intro'']"
proof -
  have mem: "''/repo-main/docs/guide/intro.md''
     \<in> set (crawl ''/repo-main/docs'' (Some (test MARKDOWN_REGEX))
              (Dir [(''guide'', Dir [(''intro.md'', File doc_text)])]) [])"
    by code_simp
  have v: "file_slug ''lib'' ''/repo-main/docs'' ''/repo-main/docs/guide/intro.md''
       = [''lib'', ''guide'', ''intro'']"
    by code_simp
  show ?thesis
    using slug_derivation[OF mem, of "''lib''"] mem v by blast
qed

text \<open>
  When the entry path is itself a markdown file, the crawl returns the entry path, nothing
  is stripped from it, and the slug carries the segments of the absolute path.
\<close>

theorem slug_of_file_entry_counterexample:
  "crawl ''/o-b-dev/README.md'' (Some (test MARKDOWN_REGEX)) (File ''Read me'') []
     = [''/o-b-dev/README.md'']
   \<and> file_path ''/o-b-dev/README.md'' ''/o-b-dev/README.md'' = ''/o-b-dev/README.md''
   \<and> file_slug ''d'' ''/o-b-dev/README.md'' ''/o-b-dev/README.md''
       = [''d'', [], ''o-b-dev'', ''README'']"
  by code_simp

subsection \<open>Keys, slugs and paths of the map\<close>

text \<open>
  C10. For every entry of the map that \<open>getDocs(lib)\<close> returns, the key is the slug of the
  entry joined by \<open>/\<close>, the first slug segment is \<open>lib\<close>, and the path field comes from a
  crawled file; when the entry path is a directory, that file is the entry path, a
  separator and the path field, and the path field still ends in its markdown extension.
\<close>

theorem docmap_consistent:
  assumes "getDocs git libs (Some lib) w = (Inr (DocMap m), w')" and "(k, d) \<in> set m"
  shows "k = join ''/'' (slug d)
       \<and> (\<exists>segs. slug d = lib # segs)
       \<and> (\<exists>file \<in> set (crawled libs lib w').
             path d = file_path (entry_of libs lib) file
             \<and> ((\<exists>entries. lstat (fs w') (entry_of libs lib) = Some (Dir entries)) \<longrightarrow>
                  file = entry_of libs lib @ ''/'' @ path d \<and> test MARKDOWN_REGEX (path d)))"
proof -
  let ?E = "entry_of libs lib"
  from forEach_file_origin[OF getDocs_crawled[OF assms(1)] assms(2)]
  obtain fl where f: "fl \<in> set (crawled libs lib w')"
    and p: "parse_file (fs w') lib ?E fl = Inr (k, d)"
    by auto
  note fields = parse_file_fields[OF p]
  have rel: "fl = ?E @ ''/'' @ path d \<and> test MARKDOWN_REGEX (path d)"
    if "lstat (fs w') ?E = Some (Dir entries)" for entries
  proof -
    from f that have c: "fl \<in> set (crawl ?E (Some (test MARKDOWN_REGEX)) (Dir entries) [])"
      by (simp add: crawled_def)
    from crawl_Dir_paths[OF c] obtain r where r: "fl = ?E @ ''/'' @ r"
      and t: "test MARKDOWN_REGEX fl" by (auto simp: passes_def)
    then obtain stem ext where se: "r = stem @ ext" and ext: "ext = ''.md'' \<or> ext = ''.mdx''"
      using markdown_stem[of ?E r] by auto
    have "path d = r"
      using fields(3) slug_of_relative(1)[OF ext, of ?E stem] r se by simp
    moreover have "test MARKDOWN_REGEX r"
      using ext se by (auto simp: test_MARKDOWN suffix_def)
    ultimately show ?thesis using r by simp
  qed
  have "slug d = lib # split_on (CHR ''/'') (replace_first MARKDOWN_REGEX (file_path ?E fl))"
    using fields(2) by (simp add: file_slug_def)
  then show ?thesis using fields(3,4) f rel by blast
qed

lemma crawled_d: "crawled libs0 ''d'' world_d = [''/o-b-dev/README.md'']"
  by code_simp

lemma lstat_a: "lstat (fs world_a) (entry_of libs0 ''a'') = Some (Dir
     [(''guide'', Dir [(''intro.md'', File doc_text)]),
      (''a.md'', File ''one''), (''a.mdx'', File ''two''), (''notes.txt'', File ''skip'')])"
  by code_simp

theorem docmap_consistent_witness:
  "getDocs git_ok libs0 (Some ''a'') w0 =
     (Inr (DocMap [(''a/guide/intro'', doc_intro), (''a/a'', doc_mdx)]), world_a)
   \<and> (''a/guide/intro'', doc_intro) \<in> set [(''a/guide/intro'', doc_intro), (''a/a'', doc_mdx)]
   \<and> ''a/guide/intro'' = join ''/'' (slug doc_intro)
   \<and> (\<exists>segs. slug doc_intro = ''a'' # segs)
   \<and> (\<exists>entries. lstat (fs world_a) (entry_of libs0 ''a'') = Some (Dir entries))
   \<and> ''/o-a-main/docs'' @ ''/'' @ path doc_intro \<in> set (crawled libs0 ''a'' world_a)
   \<and> test MARKDOWN_REGEX (path doc_intro)"
proof -
  have mem: "(''a/guide/intro'', doc_intro) \<in> set [(''a/guide/intro'', doc_intro), (''a/a'', doc_mdx)]"
    by simp
  have dir: "\<exists>entries. lstat (fs world_a) (entry_of libs0 ''a'') = Some (Dir entries)"
    by (simp add: lstat_a)
  from docmap_consistent[OF run_a mem] dir
  obtain fl where "fl \<in> set (crawled libs0 ''a'' world_a)"
    and "fl = entry_of libs0 ''a'' @ ''/'' @ path doc_intro"
    and "test MARKDOWN_REGEX (path doc_intro)"
    and "''a/guide/intro'' = join ''/'' (slug doc_intro)"
    and "\<exists>segs. slug doc_intro = ''a'' # segs"
    by blast
  then show ?thesis using run_a mem dir by (simp add: entry_a)
qed

text \<open>
  With \<open>dir: 'README.md'\<close> the entry path is a file, and the path field of its document is
  the absolute path of that file.
\<close>

theorem path_of_file_entry_counterexample:
  "getDocs git_ok libs0 (Some ''d'') w0 =
     (Inr (DocMap [(''d//o-b-dev/README'', doc_readme)]), world_d)
   \<and> entry_of libs0 ''d'' = ''/o-b-dev/README.md''
   \<and> crawled libs0 ''d'' world_d = [''/o-b-dev/README.md'']
   \<and> path doc_readme = ''/o-b-dev/README.md''"
  using run_d crawled_d by (simp add: doc_readme_def) code_simp

text \<open>
  C8. For every non-empty library id that the table does not hold, or holds without a
  \<open>docs\<close> entry, \<open>getParams\<close> returns nothing and \<open>getDocs\<close> returns \<open>undefined\<close> and
  leaves the state as it was: no call of \<open>git.clone\<close> is made.
\<close>

theorem unconfigured_library:
  assumes "lib \<noteq> []"
    and "map_of libs lib = None \<or> (\<exists>c. map_of libs lib = Some c \<and> docs c = None)"
  shows "getParams libs lib = None \<and> getDocs git libs (Some lib) w = (Inr Undefined, w)"
  using assms by (auto simp: getParams_def getDocs_def getDocs_lib_def)

theorem unconfigured_library_witness:
  "getParams libs0 ''zz'' = None \<and> getDocs git_ok libs0 (Some ''zz'') w0 = (Inr Undefined, w0)
   \<and> getParams libs0 ''c'' = None \<and> getDocs git_ok libs0 (Some ''c'') w0 = (Inr Undefined, w0)"
proof -
  have 1: "map_of libs0 ''zz'' = None" by (simp add: libs0_def)
  have 2: "\<exists>c. map_of libs0 ''c'' = Some c \<and> docs c = None" by (simp add: libs0_def)
  show ?thesis
    using unconfigured_library[of "''zz''" libs0 git_ok w0] 1
          unconfigured_library[of "''c''" libs0 git_ok w0] 2
    by simp
qed

text \<open>
  The empty string is not in the table either, but \<open>getDocs('')\<close> takes the branch of the
  missing argument: it clones every configured library and returns their documents.
\<close>

theorem empty_id_counterexample:
  "map_of libs1 [] = None
   \<and> getParams libs1 [] = None
   \<and> getDocs git_ok libs1 (Some []) w0 = (Inr (DocList [doc_b]), world_d)
   \<and> clones world_d = [\<lparr>c_dir = ''/o-b-dev'', url = ''https://github.com/o/b'', ref = ''dev''\<rparr>]"
  by code_simp

subsection \<open>Clone requests\<close>

lemma getParams_gitDir:
  "getParams libs lib = Some p \<Longrightarrow>
     gitDir p = ''/'' @ replace_str ''/'' ''-'' (p_repo p) @ ''-'' @ p_branch p"
  by (auto simp: getParams_def Let_def split: option.splits)

lemma getDocs_lib_clones:
  "getParams libs lib = Some p \<Longrightarrow>
     clones (snd (getDocs_lib git libs lib w)) = clones w @ [request p]"
  by (auto simp: getDocs_lib_def Let_def split: option.splits sum.splits)

lemma getDocs_Some:
  "lib \<noteq> [] \<Longrightarrow>
     getDocs git libs (Some lib) w =
       (case getDocs_lib git libs lib w of
          (Inl e, w') \<Rightarrow> (Inl e, w')
        | (Inr None, w') \<Rightarrow> (Inr Undefined, w')
        | (Inr (Some m), w') \<Rightarrow> (Inr (DocMap m), w'))"
  by (simp add: getDocs_def)

lemma snd_getDocs_Some:
  "lib \<noteq> [] \<Longrightarrow> snd (getDocs git libs (Some lib) w) = snd (getDocs_lib git libs lib w)"
  by (auto simp: getDocs_Some split: prod.splits sum.splits option.splits)

text \<open>
  C3. Two requests whose parameters have the same repository and branch get the same
  cache slot \<open>gitDir\<close>, and each of the two calls of \<open>getDocs\<close> calls \<open>git.clone\<close> once with
  that directory, whatever the filesystem already holds: after both, the log has grown by
  the two requests.
\<close>

theorem clone_on_every_request:
  assumes "lib \<noteq> []" and "getParams libs lib = Some p"
    and "lib' \<noteq> []" and "getParams libs lib' = Some p'"
    and "p_repo p' = p_repo p" and "p_branch p' = p_branch p"
  shows "gitDir p' = gitDir p
       \<and> c_dir (request p') = c_dir (request p)
       \<and> clones (snd (getDocs git libs (Some lib') (snd (getDocs git libs (Some lib) w))))
           = clones w @ [request p, request p']"
proof -
  have "gitDir p' = gitDir p"
    using getParams_gitDir[OF assms(2)] getParams_gitDir[OF assms(4)] assms(5,6) by simp
  moreover have "clones (snd (getDocs git libs (Some lib') (snd (getDocs git libs (Some lib) w))))
           = clones w @ [request p, request p']"
    using assms(1,3) getDocs_lib_clones[OF assms(2)] getDocs_lib_clones[OF assms(4)]
    by (simp add: snd_getDocs_Some)
  ultimately show ?thesis by (simp add: request_def)
qed

lemma params_a:
  "getParams libs0 ''a'' = Some \<lparr>p_repo = ''o/a'', p_branch = ''main'', gitDir = ''/o-a-main'',
                                  entry = ''/o-a-main/docs''\<rparr>"
  and params_e:
  "getParams libs0 ''e'' = Some \<lparr>p_repo = ''o/a'', p_branch = ''main'', gitDir = ''/o-a-main'',
                                  entry = ''/o-a-main''\<rparr>"
  by code_simp+

theorem clone_on_every_request_witness:
  "clones (snd (getDocs git_ok libs0 (Some ''e'') (snd (getDocs git_ok libs0 (Some ''a'') w0))))
     = [request_a, request_a]"
  using clone_on_every_request[OF _ params_a _ params_e, of git_ok w0]
  by (simp add: request_def request_a_def w0_def)

text \<open>
  After a first \<open>getDocs('a')\<close> the slot \<open>/o-a-main\<close> holds the checkout; a second
  \<open>getDocs('a')\<close> in that state calls \<open>git.clone\<close> again.
\<close>

theorem second_clone_counterexample:
  "snd (getDocs git_ok libs0 (Some ''a'') w0) = world_a
   \<and> lstat (fs world_a) ''/o-a-main'' = Some checkout
   \<and> clones (snd (getDocs git_ok libs0 (Some ''a'') world_a)) = [request_a, request_a]"
  by code_simp

subsection \<open>All libraries\<close>

lemma getDocs_each_append:
  "getDocs_each git libs (xs @ ys) w =
     (fst (getDocs_each git libs xs w) @ fst (getDocs_each git libs ys (snd (getDocs_each git libs xs w))),
      snd (getDocs_each git libs ys (snd (getDocs_each git libs xs w))))"
  by (induction xs arbitrary: w) (auto simp: Let_def split: prod.splits)

lemma Promise_all_Inl: "r \<in> set rs \<Longrightarrow> isl r \<Longrightarrow> isl (Promise_all rs)"
  by (induction rs) (auto split: sum.splits)

lemma Promise_all_Inr: "Promise_all rs = Inr ds \<Longrightarrow> rs = map Inr ds"
  by (induction rs arbitrary: ds) (auto split: sum.splits)

lemma getDocs_None:
  "fst (getDocs git libs None w) =
     (case Promise_all (fst (getDocs_each git libs (map fst libs) w)) of
        Inl e \<Rightarrow> Inl e
      | Inr ds \<Rightarrow> Inr (DocList (concat (map (\<lambda>c. map snd (the c)) (filter (\<lambda>c. c \<noteq> None) ds)))))"
  by (simp add: getDocs_def getDocs_all_def split: prod.splits sum.splits)

lemma getDocs_each_member:
  assumes "k \<noteq> []"
  shows "fst (getDocs_lib git libs k (snd (getDocs_each git libs before w)))
           \<in> set (fst (getDocs_each git libs (before @ k # after) w))"
  using assms by (simp add: getDocs_each_append Let_def split: prod.splits)

lemma getDocs_lib_unconfigured:
  "getParams libs lib = None \<Longrightarrow> getDocs_lib git libs lib w = (Inr None, w)"
  by (simp add: getDocs_lib_def)

lemma getDocs_each_clones:
  "[] \<notin> set ks \<Longrightarrow>
     clones (snd (getDocs_each git libs ks w))
       = clones w @ map request (List.map_filter (getParams libs) ks)"
proof (induction ks arbitrary: w)
  case Nil
  show ?case by (simp add: List.map_filter_simps)
next
  case (Cons k ks)
  then have k: "k \<noteq> []" and ks: "[] \<notin> set ks" by auto
  have step: "snd (getDocs_each git libs (k # ks) w)
                = snd (getDocs_each git libs ks (snd (getDocs_lib git libs k w)))"
    using k by (simp add: Let_def split: prod.splits)
  show ?case
  proof (cases "getParams libs k")
    case None
    then show ?thesis
      unfolding step using Cons.IH[OF ks]
      by (simp add: getDocs_lib_unconfigured List.map_filter_simps)
  next
    case (Some p)
    then show ?thesis
      unfolding step using Cons.IH[OF ks] getDocs_lib_clones[OF Some]
      by (simp add: List.map_filter_simps)
  qed
qed

lemma snd_getDocs_None:
  "snd (getDocs git libs None w) = snd (getDocs_each git libs (map fst libs) w)"
  by (simp add: getDocs_def getDocs_all_def split: prod.splits sum.splits)

text \<open>
  C1. In \<open>getDocs()\<close> without a library, for a table whose ids are not empty: when the call
  for one library is rejected, the whole call is rejected; when the whole call returns a
  list, the call for every library returned, and the list holds every document of every
  library's map. In both cases \<open>git.clone\<close> has been called once for every configured
  library, in key order. The call for the library \<open>k\<close> runs in the state that the calls for
  the keys before it have left.
\<close>

theorem all_libraries_together:
  assumes "[] \<notin> set (map fst libs)" and "map fst libs = before @ k # after"
  shows "(isl (fst (getDocs git libs (Some k) (snd (getDocs_each git libs before w))))
            \<longrightarrow> isl (fst (getDocs git libs None w)))
       \<and> (\<forall>ds. fst (getDocs git libs None w) = Inr (DocList ds) \<longrightarrow>
             (\<exists>r. fst (getDocs git libs (Some k) (snd (getDocs_each git libs before w))) = Inr r
                \<and> (\<forall>m. r = DocMap m \<longrightarrow> set (map snd m) \<subseteq> set ds)))
       \<and> clones (snd (getDocs git libs None w))
           = clones w @ map request (List.map_filter (getParams libs) (map fst libs))"
proof -
  let ?w = "snd (getDocs_each git libs before w)"
  let ?r = "fst (getDocs_lib git libs k ?w)"
  let ?rs = "fst (getDocs_each git libs (map fst libs) w)"
  have k: "k \<noteq> []" using assms by auto
  have mem: "?r \<in> set ?rs"
    unfolding assms(2) using k by (rule getDocs_each_member)
  have one: "fst (getDocs git libs (Some k) ?w) =
               (case ?r of Inl e \<Rightarrow> Inl e | Inr None \<Rightarrow> Inr Undefined | Inr (Some m) \<Rightarrow> Inr (DocMap m))"
    using k by (simp add: getDocs_Some split: prod.splits sum.splits option.splits)
  have 1: "isl (fst (getDocs git libs None w))" if "isl (fst (getDocs git libs (Some k) ?w))"
  proof -
    from that have "isl ?r" by (simp add: one split: sum.splits option.splits)
    then have "isl (Promise_all ?rs)" using mem by (rule Promise_all_Inl[rotated])
    then show ?thesis by (auto simp: getDocs_None split: sum.splits)
  qed
  have 2: "\<exists>r. fst (getDocs git libs (Some k) ?w) = Inr r
                \<and> (\<forall>m. r = DocMap m \<longrightarrow> set (map snd m) \<subseteq> set ds)"
    if "fst (getDocs git libs None w) = Inr (DocList ds)" for ds
  proof -
    from that obtain cs where cs: "Promise_all ?rs = Inr cs"
      and ds: "ds = concat (map (\<lambda>c. map snd (the c)) (filter (\<lambda>c. c \<noteq> None) cs))"
      by (auto simp: getDocs_None split: sum.splits)
    from Promise_all_Inr[OF cs] mem obtain c where c: "?r = Inr c" "c \<in> set cs" by auto
    have "set (map snd m) \<subseteq> set ds" if "c = Some m" for m
      using that c(2) unfolding ds by force
    then show ?thesis using c(1) by (auto simp: one split: option.splits)
  qed
  have 3: "clones (snd (getDocs git libs None w))
           = clones w @ map request (List.map_filter (getParams libs) (map fst libs))"
    unfolding snd_getDocs_None by (rule getDocs_each_clones[OF assms(1)])
  from 1 2 3 show ?thesis by blast
qed

subsection \<open>Runs of all libraries\<close>

lemma run_all_ok:
  "fst (getDocs git_ok libs2 None w0) = Inr (DocList [doc_intro, doc_mdx, doc_b])"
  by code_simp

lemma run_b_after_a:
  "fst (getDocs git_ok libs2 (Some ''b'') (snd (getDocs_each git_ok libs2 [''a''] w0)))
     = Inr (DocMap [(''b/intro'', doc_b)])"
  by code_simp

lemma run_a_flaky: "fst (getDocs git_flaky libs2 (Some ''a'') w0) = Inl (AcquisitionFailure ''o/a'')"
  by code_simp

theorem all_libraries_together_witness:
  "isl (fst (getDocs git_flaky libs2 (Some ''a'') (snd (getDocs_each git_flaky libs2 [] w0))))
   \<and> isl (fst (getDocs git_flaky libs2 None w0))
   \<and> fst (getDocs git_ok libs2 None w0) = Inr (DocList [doc_intro, doc_mdx, doc_b])
   \<and> fst (getDocs git_ok libs2 (Some ''b'') (snd (getDocs_each git_ok libs2 [''a''] w0)))
       = Inr (DocMap [(''b/intro'', doc_b)])
   \<and> set (map snd [(''b/intro'', doc_b)]) \<subseteq> set [doc_intro, doc_mdx, doc_b]
   \<and> clones (snd (getDocs git_flaky libs2 None w0)) = [request_a, request_b]"
proof -
  have keys: "[] \<notin> set (map fst libs2)" by (simp add: libs2_def)
  have k1: "map fst libs2 = [] @ ''a'' # [''b'']" and k2: "map fst libs2 = [''a''] @ ''b'' # []"
    by (simp_all add: libs2_def)
  have f: "isl (fst (getDocs git_flaky libs2 (Some ''a'') (snd (getDocs_each git_flaky libs2 [] w0))))"
    by (simp add: run_a_flaky)
  have c: "map request (List.map_filter (getParams libs2) (map fst libs2)) = [request_a, request_b]"
    by code_simp
  show ?thesis
    using all_libraries_together[OF keys k1, of git_flaky w0] f
          all_libraries_together[OF keys k2, of git_ok w0] run_all_ok run_b_after_a
    by (simp add: c w0_def)
qed

text \<open>
  With a clone that fails for \<open>o/a\<close> only, \<open>getDocs('b')\<close> returns its document, and
  \<open>getDocs()\<close> is rejected with the failure of \<open>a\<close>: no list is returned.
\<close>

theorem failed_library_counterexample:
  "fst (getDocs git_flaky libs2 (Some ''a'') w0) = Inl (AcquisitionFailure ''o/a'')
   \<and> fst (getDocs git_flaky libs2 (Some ''b'') w0) = Inr (DocMap [(''b/intro'', doc_b)])
   \<and> fst (getDocs git_flaky libs2 None w0) = Inl (AcquisitionFailure ''o/a'')"
  by code_simp

subsection \<open>Front matter and the sanitation passes\<close>

text \<open>
  The text \<open>hidden_text\<close> does not start with \<open>---\<close>: \<open>matter\<close> finds no block, and the two
  passes leave the delimiter lines, the title line and the opening marker of the second
  comment in the content.
\<close>

theorem hidden_front_matter_counterexample:
  "parse_file (single_file hidden_text) ''lib'' [] ''/f.md'' = Inr (''lib/f'', doc_hidden)
   \<and> data doc_hidden \<noteq> [(''title'', ''A'')]
   \<and> contains ''<!--'' (content doc_hidden)"
  by code_simp

text \<open>
  C2. For the file whose text is \<open>hidden_text\<close>, the document has the empty front matter,
  and its content holds \<open>Visible\<close> and the line \<open>title: A\<close>.
\<close>

theorem hidden_front_matter:
  "\<exists>k d. parse_file (single_file hidden_text) ''lib'' [] ''/f.md'' = Inr (k, d)
         \<and> data d = []
         \<and> contains ''Visible'' (content d)
         \<and> contains ''title: A'' (content d)"
proof -
  have "parse_file (single_file hidden_text) ''lib'' [] ''/f.md'' = Inr (''lib/f'', doc_hidden)"
    and "data doc_hidden = []"
    and "contains ''Visible'' (content doc_hidden)"
    and "contains ''title: A'' (content doc_hidden)"
    by code_simp+
  then show ?thesis by blast
qed

lemma matter_without_block: "\<not> has_front_matter text \<Longrightarrow> matter text = Inr ([], text)"
  by (simp add: matter_def)

text \<open>
  C6. The text \<open>---\ntitle: X\n---\nBody\<close> is split into the front matter
  \<open>{title: "X"}\<close> and the body \<open>Body\<close>, which the two passes leave as it is. For every
  text with no leading front-matter block, \<open>matter\<close> gives the empty front matter and the
  whole text as body, and the document of a file with such a text has the empty front
  matter and, as content, the whole text after the two passes.
\<close>

theorem front_matter_round_trip:
  "matter doc_text = Inr ([(''title'', ''X'')], ''Body'')
   \<and> sanitize ''Body'' = ''Body''
   \<and> (\<forall>text. \<not> has_front_matter text \<longrightarrow> matter text = Inr ([], text))
   \<and> (\<forall>root lib entry' f text.
         readFileSync root f = Inr text \<and> \<not> has_front_matter text \<longrightarrow>
           (\<exists>k d. parse_file root lib entry' f = Inr (k, d) \<and> data d = []
                  \<and> content d = sanitize text))"
proof -
  have "matter doc_text = Inr ([(''title'', ''X'')], ''Body'')" and "sanitize ''Body'' = ''Body''"
    by code_simp+
  then show ?thesis
    by (auto simp: parse_file_def matter_without_block)
qed

theorem front_matter_round_trip_witness:
  "readFileSync (single_file comment_text) ''/f.md'' = Inr comment_text
   \<and> \<not> has_front_matter comment_text
   \<and> matter comment_text = Inr ([], comment_text)
   \<and> (\<exists>k d. parse_file (single_file comment_text) ''lib'' [] ''/f.md'' = Inr (k, d)
          \<and> data d = [] \<and> content d = sanitize comment_text)"
proof -
  have r: "readFileSync (single_file comment_text) ''/f.md'' = Inr comment_text"
    and n: "\<not> has_front_matter comment_text"
    by code_simp+
  show ?thesis using front_matter_round_trip r n by blast
qed

text \<open>
  A text without front matter but with a comment: the content of the document is not the
  whole text.
\<close>

theorem sanitized_body_counterexample:
  "\<not> has_front_matter comment_text
   \<and> parse_file (single_file comment_text) ''lib'' [] ''/f.md''
       = Inr (''lib/f'', \<lparr>path = ''f.md'', slug = [''lib'', ''f''], data = [], content = ''a<!-- bc''\<rparr>)
   \<and> ''a<!-- bc'' \<noteq> comment_text"
  by code_simp

end
